theory Spec2Isabelle
  imports Complex_Main "HOL-Library.Sublist"
begin

section \<open>JavaScript strings\<close>

text \<open>
  A string of the program is a sequence of UTF-16 code units. The model covers the strings
  whose code units are below 256, one \<^typ>\<open>char\<close> per code unit (the Latin-1 range,
  which holds every character of the fallback data). In that range \<open>String.prototype.trim\<close>
  strips the seven characters below, and \<open>toLowerCase\<close> moves \<open>A\<close>..\<open>Z\<close> and
  \<open>U+00C0\<close>..\<open>U+00DE\<close> (the multiplication sign \<open>U+00D7\<close> apart) up by 32.
\<close>

definition js_whitespace :: "char \<Rightarrow> bool" where
  "js_whitespace c =
     (c \<in> set [CHR 0x09, CHR 0x0A, CHR 0x0B, CHR 0x0C, CHR 0x0D, CHR 0x20, CHR 0xA0])"

definition trim :: "string \<Rightarrow> string" where
  "trim s = rev (dropWhile js_whitespace (rev (dropWhile js_whitespace s)))"

definition toLowerCase_char :: "char \<Rightarrow> char" where
  "toLowerCase_char c =
     (let n = (of_char c :: nat)
      in if (65 \<le> n \<and> n \<le> 90) \<or> (192 \<le> n \<and> n \<le> 222 \<and> n \<noteq> 215)
         then char_of (n + 32) else c)"

definition toLowerCase :: "string \<Rightarrow> string" where
  "toLowerCase s = map toLowerCase_char s"

text \<open>\<open>s.includes(t)\<close>: \<open>t\<close> occurs in \<open>s\<close> as a contiguous run of code units.\<close>

fun includes_js :: "string \<Rightarrow> string \<Rightarrow> bool" where
  "includes_js [] t = (t = [])"
| "includes_js (c # s) t = (prefix t (c # s) \<or> includes_js s t)"



section \<open>The data of \<open>app/page.tsx\<close>\<close>

text \<open>
  \<open>interface Translation { id: number; text: string }\<close>. The names \<open>id\<close>, \<open>text\<close>
  and, for the state cell below, \<open>translations\<close> are taken in Isabelle, hence the suffixes.
\<close>

record Translation =
  id_tr :: nat
  text_tr :: string

definition FALLBACK_TRANSLATIONS :: "string list" where
  "FALLBACK_TRANSLATIONS =
     [''Zephyrian consciousness seeks temporal equilibrium.'',
      ''The quantum squirrel has appropriated my sustenance cube.'',
      ''Your bio-electromagnetic field experiences processing delays.'',
      ''Caffeine synthesis required for optimal neural function.'',
      ''Cosmic forces conspire against data transmission protocols.'',
      ''My photosynthetic companion evaluates my existence parameters.'',
      ''Territorial attachment to this spatial coordinate intensifies.'',
      ''The void acknowledges my presence with courteous reciprocity.'',
      ''Peak procrastination algorithms have been successfully executed.'',
      ''My textile foot coverings harbor trust-related anomalies.'']"


section \<open>The filtered view\<close>

text \<open>
  \<open>filteredEntries\<close> (the \<open>useMemo\<close> over \<open>entries\<close> and \<open>searchTerm\<close>): the term is
  trimmed for the emptiness test only; the match uses the term as typed.
\<close>

definition filteredEntries :: "Translation list \<Rightarrow> string \<Rightarrow> Translation list" where
  "filteredEntries entries searchTerm =
     (if trim searchTerm = [] then entries
      else filter (\<lambda>entry. includes_js (toLowerCase (text_tr entry)) (toLowerCase searchTerm))
             entries)"


section \<open>The component state and the pagination\<close>

text \<open>
  The \<open>useState\<close> cells of \<open>Component\<close>, and four things the cells do not hold but the
  code acts on: the \<open>loadMoreEntries\<close> that its callers hold, the timer callbacks that \<open>loadMoreEntries\<close> has scheduled and that have not
  run yet (in the order they were scheduled: all of them wait for one animation frame and
  150 ms), the log of the \<open>localStorage.setItem\<close> calls, and whether the document element
  carries the class \<open>dark\<close>.

  \<open>loadMoreEntries\<close> is a \<open>useCallback\<close> over
  \<open>[currentPage, loading, hasMore, translations, entries.length]\<close>: what it reads is what
  the render that created it saw. The record \<open>closure\<close> holds these five values, and the
  scheduled timer callback carries the same closure.

  The initial-load effect and the callback of the intersection observer call the
  \<open>loadMoreEntries\<close> of the render that set them up, until a later render sets them up
  again: \<open>callback\<close> is the closure of that function. State updates do not reach it:
  after \<open>setLoading(true)\<close> its \<open>loading\<close> is still what that render saw.

  The cell \<open>translations\<close> holds a list of strings, as its type \<open>string[]\<close> says.
\<close>

record closure =
  c_currentPage :: nat
  c_loading :: bool
  c_hasMore :: bool
  c_translations :: "string list"
  c_entries_length :: nat

record state =
  entries :: "Translation list"
  loading :: bool
  hasMore :: bool
  darkMode :: bool
  searchTerm :: string
  showScrollTop :: bool
  currentPage :: nat
  translations_st :: "string list"
  callback :: closure
  timers :: "closure list"
  localStorage_writes :: "(string \<times> string) list"
  documentElement_dark :: bool

definition render :: "state \<Rightarrow> closure" where
  "render s =
     \<lparr>c_currentPage = currentPage s, c_loading = loading s, c_hasMore = hasMore s,
      c_translations = translations_st s, c_entries_length = length (entries s)\<rparr>"

definition entriesPerPage :: nat where
  "entriesPerPage = 10"

text \<open>
  The \<open>for\<close> loop of the timer callback, \<open>i\<close> running up to \<open>entriesPerPage\<close>. The index
  \<open>(startIndex + i) % translations.length\<close> is in range whenever the list is not empty,
  and the guard of \<open>loadMoreEntries\<close> schedules no callback on an empty list.
\<close>

function batch_loop :: "nat \<Rightarrow> string list \<Rightarrow> nat \<Rightarrow> Translation list \<Rightarrow> Translation list" where
  "batch_loop startIndex trs i newEntries =
     (if i < entriesPerPage
      then let translationIndex = (startIndex + i) mod length trs;
               entryId = startIndex + i
           in batch_loop startIndex trs (Suc i)
                (newEntries @ [\<lparr>id_tr = entryId, text_tr = trs ! translationIndex\<rparr>])
      else newEntries)"
  by pat_completeness auto
termination
  by (relation "measure (\<lambda>(startIndex, trs, i, newEntries). entriesPerPage - i)") auto

declare batch_loop.simps [simp del]

text \<open>
  The body of the timer callback (lines 110 to 132). \<open>setEntries\<close> and \<open>setCurrentPage\<close>
  are given updater functions, so they act on the state as it is when the callback runs;
  \<open>startIndex\<close>, \<open>translations\<close> and \<open>entries.length\<close> come from the closure.
\<close>

definition timer_callback :: "closure \<Rightarrow> state \<Rightarrow> state" where
  "timer_callback c s =
     (let startIndex = c_currentPage c * entriesPerPage;
          newEntries = batch_loop startIndex (c_translations c) 0 [];
          s1 = s\<lparr>entries := entries s @ newEntries\<rparr>;
          s2 = s1\<lparr>currentPage := currentPage s1 + 1\<rparr>;
          s3 = s2\<lparr>loading := False\<rparr>
      in if c_entries_length c + length newEntries \<ge> length (c_translations c) * 20
         then s3\<lparr>hasMore := False\<rparr> else s3)"

definition loadMoreEntries :: "closure \<Rightarrow> state \<Rightarrow> state" where
  "loadMoreEntries c s =
     (if c_loading c \<or> \<not> c_hasMore c \<or> length (c_translations c) = 0 then s
      else s\<lparr>loading := True, timers := timers s @ [c]\<rparr>)"


section \<open>The theme\<close>

text \<open>
  \<open>toggleDarkMode\<close> flips the cell. The effect over \<open>[darkMode]\<close> runs after a render in
  which \<open>darkMode\<close> differs from the value the previous render had: it stores
  \<open>JSON.stringify(darkMode)\<close> under the key \<open>groot-dark-mode\<close> and sets the class.
  (The read of the saved value when the component mounts is left out.)
\<close>

definition JSON_stringify_bool :: "bool \<Rightarrow> string" where
  "JSON_stringify_bool b = (if b then ''true'' else ''false'')"

definition toggleDarkMode :: "state \<Rightarrow> state" where
  "toggleDarkMode s = s\<lparr>darkMode := \<not> darkMode s\<rparr>"

definition darkMode_effect :: "state \<Rightarrow> state" where
  "darkMode_effect s =
     s\<lparr>localStorage_writes :=
          localStorage_writes s @ [(''groot-dark-mode'', JSON_stringify_bool (darkMode s))],
       documentElement_dark := darkMode s\<rparr>"

definition commit_darkMode :: "bool \<Rightarrow> state \<Rightarrow> state" where
  "commit_darkMode previous s = (if darkMode s \<noteq> previous then darkMode_effect s else s)"


section \<open>Events\<close>

text \<open>
  The component is driven by events, one at a time. \<open>RequestMore\<close> is a call of
  \<open>loadMoreEntries\<close> by the initial-load effect or by the intersection observer: a call of
  the function they hold, which is the one of the latest render that React has committed,
  not of the state as it is now. \<open>Render\<close> is React committing a render after state
  updates: the effects run again and their callers hold the new function. Between the
  \<open>setLoading(true)\<close> of one call and that render, a second call still goes through the
  old closure (the effect calls \<open>loadMoreEntries\<close> in the flush that registers the
  observer with the same function). \<open>TimerFires\<close> is the run of the oldest scheduled timer
  callback. A change of the search term and a click on the theme button are events of the
  user, each with its own committed render. (The conditions under which the two callers
  call, \<open>entries.length === 0\<close> in the effect and \<open>hasMore && !loading\<close> in the observer,
  read the same render as the function they call; \<open>RequestMore\<close> stands for a call by
  either.)
\<close>

datatype event = RequestMore | Render | TimerFires | SetSearchTerm string | ToggleDarkMode

definition rerender :: "state \<Rightarrow> state" where
  "rerender s = s\<lparr>callback := render s\<rparr>"

fun step :: "event \<Rightarrow> state \<Rightarrow> state" where
  "step RequestMore s = loadMoreEntries (callback s) s"
| "step Render s = rerender s"
| "step TimerFires s =
     (case timers s of [] \<Rightarrow> s | c # cs \<Rightarrow> timer_callback c (s\<lparr>timers := cs\<rparr>))"
| "step (SetSearchTerm t) s = rerender (s\<lparr>searchTerm := t\<rparr>)"
| "step ToggleDarkMode s = rerender (commit_darkMode (darkMode s) (toggleDarkMode s))"

definition run :: "event list \<Rightarrow> state \<Rightarrow> state" where
  "run evs s = foldl (\<lambda>s e. step e s) s evs"

text \<open>
  The state once the translations are in place: the initial values of the \<open>useState\<close>
  cells, with \<open>translations\<close> set by \<open>loadTranslations\<close>, as the render that first sees
  the translations has them, which is the render whose \<open>loadMoreEntries\<close> the callers hold;
  no timer is scheduled and the write log starts empty. (Before that \<open>translations\<close> is
  empty and \<open>loadMoreEntries\<close> returns at its guard.)
\<close>

definition mounted :: "string list \<Rightarrow> state" where
  "mounted trs =
     \<lparr>entries = [], loading = False, hasMore = True, darkMode = False, searchTerm = [],
      showScrollTop = False, currentPage = 0, translations_st = trs,
      callback = \<lparr>c_currentPage = 0, c_loading = False, c_hasMore = True,
                   c_translations = trs, c_entries_length = 0\<rparr>,
      timers = [], localStorage_writes = [], documentElement_dark = False\<rparr>"


section \<open>The source loader\<close>











text \<open>
  The entry the specification gives to position \<open>n\<close> of the log (counted from 0) over the
  source list \<open>trs\<close>.
\<close>

definition spec_entry :: "string list \<Rightarrow> nat \<Rightarrow> Translation" where
  "spec_entry trs n = \<lparr>id_tr = n, text_tr = trs ! (n mod length trs)\<rparr>"

text \<open>
  What holds of every state the events lead to from \<open>mounted trs\<close>: every closure held by the
  callers or scheduled carries the source list \<open>trs\<close>, and every entry of the log is the specified entry for
  its own id.
\<close>

definition source_inv :: "string list \<Rightarrow> state \<Rightarrow> bool" where
  "source_inv trs s \<longleftrightarrow>
     translations_st s = trs
     \<and> c_translations (callback s) = trs
     \<and> list_all (\<lambda>c. c_translations c = trs) (timers s)
     \<and> list_all (\<lambda>e. e = spec_entry trs (id_tr e)) (entries s)"




section \<open>Strings: auxiliary facts\<close>

lemma includes_js_sublist: "includes_js s t = sublist t s"
  by (induction s) (auto simp: sublist_Cons_right)

lemma trim_Nil [simp]: "trim [] = []"
  by (simp add: trim_def)

lemma all_dropWhile: "(\<forall>x \<in> set (dropWhile P xs). P x) \<longleftrightarrow> (\<forall>x \<in> set xs. P x)"
  by (induction xs) auto

lemma trim_empty_iff: "trim s = [] \<longleftrightarrow> (\<forall>c \<in> set s. js_whitespace c)"
  by (simp add: trim_def dropWhile_eq_Nil_conv all_dropWhile)


section \<open>The loop, the events and the fallback data: auxiliary facts\<close>

lemma batch_loop_acc:
  "i \<le> entriesPerPage \<Longrightarrow>
   batch_loop st trs i acc = acc @ map (spec_entry trs) [st + i..<st + entriesPerPage]"
proof (induction st trs i acc rule: batch_loop.induct)
  case (1 st trs i acc)
  show ?case
  proof (cases "i < entriesPerPage")
    case True
    then have "batch_loop st trs i acc =
        batch_loop st trs (Suc i) (acc @ [spec_entry trs (st + i)])"
      by (subst batch_loop.simps) (simp add: spec_entry_def)
    also have "\<dots> = (acc @ [spec_entry trs (st + i)]) @
        map (spec_entry trs) [st + Suc i..<st + entriesPerPage]"
      using "1.IH" [OF True refl refl] True by (simp add: spec_entry_def)
    also have "\<dots> = acc @ map (spec_entry trs) [st + i..<st + entriesPerPage]"
      using True by (simp add: upt_conv_Cons)
    finally show ?thesis .
  next
    case False
    with "1.prems" have "i = entriesPerPage" by simp
    then show ?thesis by (subst batch_loop.simps) simp
  qed
qed

lemma batch_loop_eq:
  "batch_loop st trs 0 [] = map (spec_entry trs) [st..<st + entriesPerPage]"
  using batch_loop_acc [of 0 st trs "[]"] by simp

lemma length_batch_loop [simp]: "length (batch_loop st trs 0 []) = entriesPerPage"
  by (simp add: batch_loop_eq)

lemma run_Nil [simp]: "run [] s = s"
  by (simp add: run_def)

lemma run_Cons [simp]: "run (e # evs) s = run evs (step e s)"
  by (simp add: run_def)

lemma fallback_quantum:
  "j < 10 \<Longrightarrow> includes_js (toLowerCase (FALLBACK_TRANSLATIONS ! j)) ''quantum'' = (j = 1)"
proof -
  assume "j < 10"
  then consider "j = 0" | "j = 1" | "j = 2" | "j = 3" | "j = 4" | "j = 5" | "j = 6" | "j = 7"
    | "j = 8" | "j = 9"
    by atomize_elim arith
  then show ?thesis
    by cases
      (simp_all add: FALLBACK_TRANSLATIONS_def toLowerCase_def toLowerCase_char_def char_of_def)
qed

lemma length_FALLBACK: "length FALLBACK_TRANSLATIONS = 10"
  by (simp add: FALLBACK_TRANSLATIONS_def)

lemmas run_eval = mounted_def loadMoreEntries_def render_def timer_callback_def Let_def
  entriesPerPage_def batch_loop_eq

lemmas string_eval = trim_def js_whitespace_def toLowerCase_def toLowerCase_char_def
  char_of_def bit_Suc_0_iff




lemma filter_quantum:
  "filter (\<lambda>e. includes_js (toLowerCase (text_tr e)) ''quantum'')
     (map (spec_entry FALLBACK_TRANSLATIONS) ns)
   = filter (\<lambda>e. id_tr e mod 10 = 1) (map (spec_entry FALLBACK_TRANSLATIONS) ns)"
proof -
  have "includes_js (toLowerCase (text_tr (spec_entry FALLBACK_TRANSLATIONS n))) ''quantum''
      = (id_tr (spec_entry FALLBACK_TRANSLATIONS n) mod 10 = 1)" for n
    using fallback_quantum [of "n mod 10"]
    by (simp add: spec_entry_def length_FALLBACK)
  then show ?thesis
    by (simp add: filter_map comp_def)
qed


section \<open>States the events lead to\<close>

lemma spec_entry_id [simp]: "id_tr (spec_entry trs n) = n"
  by (simp add: spec_entry_def)

lemma batch_source: "list_all (\<lambda>e. e = spec_entry trs (id_tr e)) (batch_loop st trs 0 [])"
  by (simp add: batch_loop_eq list_all_iff)

lemma source_inv_mounted: "source_inv trs (mounted trs)"
  by (simp add: source_inv_def mounted_def)

lemma source_inv_rerender: "source_inv trs s \<Longrightarrow> source_inv trs (rerender s)"
  by (simp add: source_inv_def rerender_def render_def)

lemma source_inv_step:
  assumes "source_inv trs s"
  shows "source_inv trs (step e s)"
proof (cases e)
  case RequestMore
  with assms show ?thesis
    by (simp add: source_inv_def loadMoreEntries_def)
next
  case Render
  with assms show ?thesis by (simp add: source_inv_rerender)
next
  case TimerFires
  show ?thesis
  proof (cases "timers s")
    case Nil
    with assms TimerFires show ?thesis by simp
  next
    case (Cons c cs)
    with assms have c: "c_translations c = trs"
      by (simp add: source_inv_def)
    from assms Cons TimerFires show ?thesis
      using batch_source [of trs "c_currentPage c * entriesPerPage"]
      by (simp add: source_inv_def timer_callback_def Let_def c)
  qed
next
  case (SetSearchTerm t)
  from assms have "source_inv trs (s\<lparr>searchTerm := t\<rparr>)"
    by (simp add: source_inv_def)
  with SetSearchTerm show ?thesis by (simp add: source_inv_rerender)
next
  case ToggleDarkMode
  from assms have "source_inv trs (commit_darkMode (darkMode s) (toggleDarkMode s))"
    by (simp add: source_inv_def commit_darkMode_def toggleDarkMode_def darkMode_effect_def)
  with ToggleDarkMode show ?thesis by (simp add: source_inv_rerender)
qed

lemma source_inv_run: "source_inv trs s \<Longrightarrow> source_inv trs (run evs s)"
  by (induction evs arbitrary: s) (simp_all add: source_inv_step)

lemma source_inv_reachable: "source_inv trs (run evs (mounted trs))"
  by (simp add: source_inv_run source_inv_mounted)

lemma reachable_entries_source:
  "entries (run evs (mounted trs)) =
     map (spec_entry trs) (map id_tr (entries (run evs (mounted trs))))"
proof -
  have "list_all (\<lambda>e. e = spec_entry trs (id_tr e)) (entries (run evs (mounted trs)))"
    using source_inv_reachable [of trs evs] by (simp add: source_inv_def)
  then have "map (\<lambda>e. spec_entry trs (id_tr e)) (entries (run evs (mounted trs)))
      = entries (run evs (mounted trs))"
    by (intro map_idI) (simp add: list_all_iff)
  then show ?thesis by (simp add: comp_def)
qed

text \<open>Ten entries a page: this holds in every state the events lead to.\<close>

lemma length_pages_step:
  assumes "length (entries s) = entriesPerPage * currentPage s"
  shows "length (entries (step e s)) = entriesPerPage * currentPage (step e s)"
proof (cases e)
  case RequestMore
  with assms show ?thesis by (simp add: loadMoreEntries_def)
next
  case Render
  with assms show ?thesis by (simp add: rerender_def)
next
  case TimerFires
  with assms show ?thesis
    by (cases "timers s") (simp_all add: timer_callback_def Let_def)
next
  case (SetSearchTerm t)
  with assms show ?thesis by (simp add: rerender_def)
next
  case ToggleDarkMode
  with assms show ?thesis
    by (simp add: rerender_def commit_darkMode_def toggleDarkMode_def darkMode_effect_def)
qed

lemma length_pages_run:
  "length (entries s) = entriesPerPage * currentPage s \<Longrightarrow>
   length (entries (run evs s)) = entriesPerPage * currentPage (run evs s)"
  by (induction evs arbitrary: s) (simp_all add: length_pages_step)

lemma reachable_length_pages:
  "length (entries (run evs (mounted trs))) = 10 * currentPage (run evs (mounted trs))"
  using length_pages_run [of "mounted trs" evs]
  by (simp add: mounted_def entriesPerPage_def)

text \<open>
  Two calls through one closure, and the two timer callbacks they schedule.
\<close>

lemma double_call:
  assumes "\<not> c_loading (callback s)" and "c_hasMore (callback s)"
    and "c_translations (callback s) \<noteq> []" and "timers s = []"
  shows "timers (run [RequestMore, RequestMore] s) = [callback s, callback s]"
    and "entries (run [RequestMore, RequestMore] s) = entries s"
    and "entries (run [RequestMore, RequestMore, TimerFires] s) =
          entries s @ map (spec_entry (c_translations (callback s)))
            [c_currentPage (callback s) * 10..<c_currentPage (callback s) * 10 + 10]"
    and "timers (run [RequestMore, RequestMore, TimerFires] s) = [callback s]"
    and "currentPage (run [RequestMore, RequestMore, TimerFires] s) = currentPage s + 1"
    and "entries (run [RequestMore, RequestMore, TimerFires, TimerFires] s) =
          entries s @ map (spec_entry (c_translations (callback s)))
            [c_currentPage (callback s) * 10..<c_currentPage (callback s) * 10 + 10]
          @ map (spec_entry (c_translations (callback s)))
            [c_currentPage (callback s) * 10..<c_currentPage (callback s) * 10 + 10]"
    and "timers (run [RequestMore, RequestMore, TimerFires, TimerFires] s) = []"
    and "currentPage (run [RequestMore, RequestMore, TimerFires, TimerFires] s) = currentPage s + 2"
    and "hasMore (run [RequestMore, RequestMore, TimerFires, TimerFires] s) =
          (hasMore s \<and> c_entries_length (callback s) + 10 < 20 * length (c_translations (callback s)))"
  using assms
  by (simp_all add: loadMoreEntries_def timer_callback_def Let_def batch_loop_eq
      entriesPerPage_def)

lemmas mounted_eval = mounted_def rerender_def run_eval

lemma mounted_guard:
  "\<not> c_loading (callback (mounted trs))" "c_hasMore (callback (mounted trs))"
  "c_translations (callback (mounted trs)) = trs" "timers (mounted trs) = []"
  "c_currentPage (callback (mounted trs)) = 0" "entries (mounted trs) = []"
  by (simp_all add: mounted_def)


section \<open>The claims\<close>


text \<open>
  C1. The \<open>n\<close>-th entry appended is to have id \<open>n - 1\<close>. The code
  breaks this when \<open>loadMoreEntries\<close> is called twice before a render: from a
  state in which the \<open>loadMoreEntries\<close> that the callers hold passes its guard and
  nothing is scheduled, both calls pass the guard, and the two timer callbacks append the same
  ten entries twice. The log grows by twenty, and entry
  \<open>length (entries s) + 10 + i\<close> is again the entry for id
  \<open>currentPage \<times> 10 + i\<close>, the one at
  \<open>length (entries s) + i\<close>. From \<open>mounted\<close> the eleventh entry has id
  0, not 10.
\<close>

theorem entry_log_repeats:
  assumes "\<not> c_loading (callback s)" and "c_hasMore (callback s)"
    and "c_translations (callback s) \<noteq> []" and "timers s = []"
    and "s' = run [RequestMore, RequestMore, TimerFires, TimerFires] s"
    and "i < 10"
  shows "length (entries s') = length (entries s) + 20
         \<and> entries s' ! (length (entries s) + i)
             = spec_entry (c_translations (callback s)) (c_currentPage (callback s) * 10 + i)
         \<and> entries s' ! (length (entries s) + 10 + i)
             = spec_entry (c_translations (callback s)) (c_currentPage (callback s) * 10 + i)
         \<and> id_tr (entries s' ! (length (entries s) + 10 + i))
             = id_tr (entries s' ! (length (entries s) + i))"
proof -
  let ?B = "map (spec_entry (c_translations (callback s)))
      [c_currentPage (callback s) * 10..<c_currentPage (callback s) * 10 + 10]"
  have es: "entries s' = entries s @ ?B @ ?B"
    unfolding assms(5) using assms(1-4) by (rule double_call)
  have b: "?B ! i = spec_entry (c_translations (callback s)) (c_currentPage (callback s) * 10 + i)"
    using assms(6) by simp
  have 1: "entries s' ! (length (entries s) + i) = ?B ! i"
    unfolding es using assms(6) by (simp add: nth_append)
  have 2: "entries s' ! (length (entries s) + 10 + i) = ?B ! i"
    unfolding es using assms(6) by (simp add: nth_append)
  have 3: "length (entries s') = length (entries s) + 20"
    unfolding es by simp
  from 1 2 3 b show ?thesis by simp
qed

theorem entry_log_repeats_witness:
  "length (entries (run [RequestMore, RequestMore, TimerFires, TimerFires]
      (mounted [''a'', ''b'', ''c'']))) = 20
   \<and> entries (run [RequestMore, RequestMore, TimerFires, TimerFires]
        (mounted [''a'', ''b'', ''c''])) ! 10 = \<lparr>id_tr = 0, text_tr = ''a''\<rparr>
   \<and> entries (run [RequestMore, RequestMore, TimerFires, TimerFires]
        (mounted [''a'', ''b'', ''c''])) ! 0 = \<lparr>id_tr = 0, text_tr = ''a''\<rparr>"
proof -
  let ?s = "mounted [''a'', ''b'', ''c'']"
  have ne: "c_translations (callback ?s) \<noteq> []"
    by (simp add: mounted_guard)
  note w = entry_log_repeats [OF mounted_guard(1) mounted_guard(2) ne mounted_guard(4) refl,
      where i = 0]
  from w show ?thesis
    by (simp add: mounted_guard spec_entry_def)
qed


text \<open>
  C2. Two calls of \<open>loadMoreEntries\<close> before the first batch is appended are to
  give one batch. The code breaks this when no render lies between the calls: from a state in
  which the \<open>loadMoreEntries\<close> that the callers hold passes its guard and nothing
  is scheduled, the second call reads the \<open>loading\<close> of the same closure, which
  \<open>setLoading(true)\<close> has not changed, so two timer callbacks are scheduled and
  two batches of ten are appended. Where the closure of the call has \<open>loading\<close>
  set, the call changes nothing: with a render between the calls there is one batch (see the
  witness).
\<close>

theorem loadMoreEntries_same_closure:
  assumes "\<not> c_loading (callback s)" and "c_hasMore (callback s)"
    and "c_translations (callback s) \<noteq> []" and "timers s = []"
  shows "loadMoreEntries (callback s) (loadMoreEntries (callback s) s)
           = s\<lparr>loading := True, timers := [callback s, callback s]\<rparr>
         \<and> timers (run [RequestMore, RequestMore] s) = [callback s, callback s]
         \<and> entries (run [RequestMore, RequestMore, TimerFires, TimerFires] s)
             = entries s
               @ batch_loop (c_currentPage (callback s) * entriesPerPage)
                   (c_translations (callback s)) 0 []
               @ batch_loop (c_currentPage (callback s) * entriesPerPage)
                   (c_translations (callback s)) 0 []
         \<and> length (entries (run [RequestMore, RequestMore, TimerFires, TimerFires] s))
             = length (entries s) + 20
         \<and> (c_loading (callback s') \<longrightarrow> step RequestMore s' = s')"
proof -
  have 1: "loadMoreEntries (callback s) (loadMoreEntries (callback s) s)
      = s\<lparr>loading := True, timers := [callback s, callback s]\<rparr>"
    using assms by (simp add: loadMoreEntries_def)
  have 2: "timers (run [RequestMore, RequestMore] s) = [callback s, callback s]"
    using assms by (rule double_call)
  have 3: "entries (run [RequestMore, RequestMore, TimerFires, TimerFires] s)
      = entries s
        @ batch_loop (c_currentPage (callback s) * entriesPerPage)
            (c_translations (callback s)) 0 []
        @ batch_loop (c_currentPage (callback s) * entriesPerPage)
            (c_translations (callback s)) 0 []"
    using double_call(6) [OF assms] by (simp add: batch_loop_eq entriesPerPage_def)
  have 4: "length (entries (run [RequestMore, RequestMore, TimerFires, TimerFires] s))
      = length (entries s) + 20"
    unfolding double_call(6) [OF assms] by simp
  have 5: "step RequestMore s' = s'" if "c_loading (callback s')"
    using that by (simp add: loadMoreEntries_def)
  from 1 2 3 4 5 show ?thesis by blast
qed

theorem loadMoreEntries_same_closure_witness:
  "timers (run [RequestMore, RequestMore] (mounted [''a'', ''b'', ''c'']))
     = [callback (mounted [''a'', ''b'', ''c'']), callback (mounted [''a'', ''b'', ''c''])]
   \<and> length (entries (run [RequestMore, RequestMore, TimerFires, TimerFires]
        (mounted [''a'', ''b'', ''c'']))) = 20
   \<and> length (entries (run [RequestMore, Render, RequestMore, TimerFires, TimerFires]
        (mounted [''a'', ''b'', ''c'']))) = 10"
proof -
  let ?s = "mounted [''a'', ''b'', ''c'']"
  have ne: "c_translations (callback ?s) \<noteq> []"
    by (simp add: mounted_guard)
  note w = loadMoreEntries_same_closure [OF mounted_guard(1) mounted_guard(2) ne mounted_guard(4)]
  from w have 1: "timers (run [RequestMore, RequestMore] ?s) = [callback ?s, callback ?s]"
    by blast
  from w have "length (entries (run [RequestMore, RequestMore, TimerFires, TimerFires] ?s))
      = length (entries ?s) + 20"
    by blast
  then have 2: "length (entries (run [RequestMore, RequestMore, TimerFires, TimerFires] ?s)) = 20"
    by (simp only: mounted_guard list.size add_0)
  have 3: "length (entries (run [RequestMore, Render, RequestMore, TimerFires, TimerFires] ?s)) = 10"
    by (simp add: mounted_eval)
  from 1 2 3 show ?thesis by blast
qed


text \<open>
  C3. \<open>hasMore\<close> is to turn off exactly when the log reaches
  \<open>20 \<times> length trs\<close>, and nothing is to be appended afterwards. The code
  breaks this when \<open>loadMoreEntries\<close> is called twice before a render: from a
  state in which the \<open>loadMoreEntries\<close> that the callers hold passes its guard and
  nothing is scheduled, the log grows by twenty, while each timer callback decides
  \<open>hasMore\<close> from the \<open>entries.length\<close> of the closure plus ten. Over
  a list of one string, from \<open>mounted\<close> the log reaches 20 entries with
  \<open>hasMore\<close> still set and then 30; and after a first batch the first callback
  turns \<open>hasMore\<close> off at 20 entries and the second appends ten more.
\<close>

theorem hasMore_stale:
  assumes "\<not> c_loading (callback s)" and "c_hasMore (callback s)"
    and "c_translations (callback s) \<noteq> []" and "timers s = []"
    and "s' = run [RequestMore, RequestMore, TimerFires, TimerFires] s"
  shows "length (entries s') = length (entries s) + 20
         \<and> hasMore s' =
             (hasMore s
              \<and> c_entries_length (callback s) + 10 < 20 * length (c_translations (callback s)))
         \<and> length (entries s')
             = length (entries (run [RequestMore, RequestMore, TimerFires] s)) + 10"
proof -
  have 1: "length (entries s') = length (entries s) + 20"
    unfolding assms(5) double_call(6) [OF assms(1-4)] by simp
  have 2: "hasMore s' =
      (hasMore s
       \<and> c_entries_length (callback s) + 10 < 20 * length (c_translations (callback s)))"
    unfolding assms(5) using assms(1-4) by (rule double_call)
  have 3: "length (entries s') = length (entries (run [RequestMore, RequestMore, TimerFires] s)) + 10"
    unfolding 1 double_call(3) [OF assms(1-4)] by simp
  from 1 2 3 show ?thesis by blast
qed

theorem hasMore_stale_witness:
  "length (entries (run [RequestMore, RequestMore, TimerFires, TimerFires] (mounted [''a''])))
     = 20 * length [''a'']
   \<and> hasMore (run [RequestMore, RequestMore, TimerFires, TimerFires] (mounted [''a'']))
   \<and> length (entries (run [RequestMore, RequestMore, TimerFires, TimerFires, Render,
        RequestMore, TimerFires] (mounted [''a'']))) = 30
   \<and> \<not> hasMore (run [RequestMore, TimerFires, Render, RequestMore, RequestMore, TimerFires]
        (mounted [''a'']))
   \<and> length (entries (run [RequestMore, TimerFires, Render, RequestMore, RequestMore, TimerFires]
        (mounted [''a'']))) = 20
   \<and> length (entries (run [RequestMore, RequestMore, TimerFires, TimerFires]
        (run [RequestMore, TimerFires, Render] (mounted [''a''])))) = 30"
proof -
  let ?s = "mounted [''a'']"
  let ?t = "run [RequestMore, TimerFires, Render] (mounted [''a''])"
  have ne: "c_translations (callback ?s) \<noteq> []"
    by (simp add: mounted_guard)
  note w = hasMore_stale [OF mounted_guard(1) mounted_guard(2) ne mounted_guard(4) refl]
  have hs: "hasMore ?s" and cl: "c_entries_length (callback ?s) = 0"
    by (simp_all add: mounted_def)
  from w have 1: "length (entries (run [RequestMore, RequestMore, TimerFires, TimerFires] ?s))
      = 20 * length [''a'']"
    by (simp add: mounted_guard)
  from w hs cl have 2: "hasMore (run [RequestMore, RequestMore, TimerFires, TimerFires] ?s)"
    by (simp add: mounted_guard)
  have 3: "length (entries (run [RequestMore, RequestMore, TimerFires, TimerFires, Render,
        RequestMore, TimerFires] ?s)) = 30"
    by (simp add: mounted_eval)
  have t: "\<not> c_loading (callback ?t)" "c_hasMore (callback ?t)"
    "c_translations (callback ?t) \<noteq> []" "timers ?t = []" "length (entries ?t) = 10"
    by (simp_all add: mounted_eval)
  have 4: "\<not> hasMore (run [RequestMore, TimerFires, Render, RequestMore, RequestMore, TimerFires] ?s)"
    by (simp add: mounted_eval)
  have 5: "length (entries (run [RequestMore, TimerFires, Render, RequestMore, RequestMore,
      TimerFires] ?s)) = 20"
    by (simp add: mounted_eval)
  from hasMore_stale [OF t(1-4) refl] t(5)
  have 6: "length (entries (run [RequestMore, RequestMore, TimerFires, TimerFires] ?t)) = 30"
    by simp
  from 1 2 3 4 5 6 show ?thesis by blast
qed







text \<open>
  C5. The claim as stated fails for a term that is not empty but holds only whitespace:
  the term of two spaces gives back an entry whose text does not contain two spaces in a
  row.
\<close>

theorem filteredEntries_blank_term_counterexample:
  "[CHR 0x20, CHR 0x20] \<noteq> []
   \<and> filteredEntries
        [\<lparr>id_tr = 0, text_tr = ''Zephyrian consciousness seeks temporal equilibrium.''\<rparr>]
        [CHR 0x20, CHR 0x20]
       = [\<lparr>id_tr = 0, text_tr = ''Zephyrian consciousness seeks temporal equilibrium.''\<rparr>]
   \<and> \<not> includes_js (toLowerCase ''Zephyrian consciousness seeks temporal equilibrium.'')
         (toLowerCase [CHR 0x20, CHR 0x20])"
  by (simp add: filteredEntries_def string_eval)


text \<open>
  C5, amended. For every entry log and every search term with a character that is not
  whitespace (the trimmed term is not empty), the filtered view is the entries, in log
  order, whose lowercased text contains the lowercased term. Over the fallback data, in
  every state that the events lead to, the term \<open>quantum\<close> gives exactly the entries whose
  id is 1 modulo 10, one for each round through the list, and their text is the one about
  the quantum squirrel.
\<close>

theorem filteredEntries_nonblank_term:
  assumes "s = run evs (mounted FALLBACK_TRANSLATIONS)"
  shows "(trim q \<noteq> [] \<longrightarrow>
            filteredEntries es q =
              filter (\<lambda>e. sublist (toLowerCase q) (toLowerCase (text_tr e))) es
            \<and> set (filteredEntries es q) =
               {e \<in> set es. sublist (toLowerCase q) (toLowerCase (text_tr e))})
         \<and> filteredEntries (entries s) ''quantum''
             = filter (\<lambda>e. id_tr e mod 10 = 1) (entries s)
         \<and> (e \<in> set (filteredEntries (entries s) ''quantum'') \<longrightarrow>
               text_tr e = ''The quantum squirrel has appropriated my sustenance cube.'')"
proof -
  have gen: "filteredEntries es q =
        filter (\<lambda>e. sublist (toLowerCase q) (toLowerCase (text_tr e))) es
      \<and> set (filteredEntries es q) =
         {e \<in> set es. sublist (toLowerCase q) (toLowerCase (text_tr e))}"
    if "trim q \<noteq> []"
    using that by (simp add: filteredEntries_def includes_js_sublist)
  have es: "entries s = map (spec_entry FALLBACK_TRANSLATIONS) (map id_tr (entries s))"
    unfolding assms by (rule reachable_entries_source)
  have q: "trim ''quantum'' \<noteq> []" and lq: "toLowerCase ''quantum'' = ''quantum''"
    by (simp_all add: string_eval)
  have "filteredEntries (entries s) ''quantum''
      = filter (\<lambda>e. includes_js (toLowerCase (text_tr e)) ''quantum'') (entries s)"
    using q by (simp add: filteredEntries_def lq)
  also have "\<dots> = filter (\<lambda>e. includes_js (toLowerCase (text_tr e)) ''quantum'')
      (map (spec_entry FALLBACK_TRANSLATIONS) (map id_tr (entries s)))"
    by (subst es) (rule refl)
  also have "\<dots> = filter (\<lambda>e. id_tr e mod 10 = 1)
      (map (spec_entry FALLBACK_TRANSLATIONS) (map id_tr (entries s)))"
    by (rule filter_quantum)
  also have "\<dots> = filter (\<lambda>e. id_tr e mod 10 = 1) (entries s)"
    by (subst (2) es) (rule refl)
  finally have qu: "filteredEntries (entries s) ''quantum''
      = filter (\<lambda>e. id_tr e mod 10 = 1) (entries s)" .
  have tx: "text_tr e = ''The quantum squirrel has appropriated my sustenance cube.''"
    if "e \<in> set (filteredEntries (entries s) ''quantum'')"
  proof -
    from that have m: "e \<in> set (entries s)" and i: "id_tr e mod 10 = 1"
      unfolding qu by simp_all
    from m obtain n where "e = spec_entry FALLBACK_TRANSLATIONS n"
      by (subst (asm) es) auto
    with i show ?thesis
      by (simp add: spec_entry_def length_FALLBACK) (simp add: FALLBACK_TRANSLATIONS_def)
  qed
  from gen qu tx show ?thesis by blast
qed

theorem filteredEntries_nonblank_term_witness:
  "filteredEntries (entries (run [RequestMore, TimerFires] (mounted FALLBACK_TRANSLATIONS)))
     ''quantum''
     = [\<lparr>id_tr = 1, text_tr = ''The quantum squirrel has appropriated my sustenance cube.''\<rparr>]
   \<and> filteredEntries [\<lparr>id_tr = 7, text_tr = ''The Quantum Squirrel''\<rparr>] ''QUANTUM s''
     = [\<lparr>id_tr = 7, text_tr = ''The Quantum Squirrel''\<rparr>]
   \<and> filteredEntries [\<lparr>id_tr = 7, text_tr = ''The Quantum Squirrel''\<rparr>] ''quantums''
     = []"
proof -
  let ?s = "run [RequestMore, TimerFires] (mounted FALLBACK_TRANSLATIONS)"
  let ?es = "[\<lparr>id_tr = 7, text_tr = ''The Quantum Squirrel''\<rparr>]"
  have ne: "FALLBACK_TRANSLATIONS \<noteq> []"
    by (simp add: FALLBACK_TRANSLATIONS_def)
  have es: "entries ?s = map (spec_entry FALLBACK_TRANSLATIONS) [0..<10]"
    using ne by (simp add: mounted_eval)
  have f: "filter (\<lambda>e. id_tr e mod 10 = 1) (entries ?s)
      = [\<lparr>id_tr = 1, text_tr = ''The quantum squirrel has appropriated my sustenance cube.''\<rparr>]"
    unfolding es by (simp add: upt_conv_Cons spec_entry_def FALLBACK_TRANSLATIONS_def)
  note w = filteredEntries_nonblank_term [where s = ?s, OF refl]
  from w [of "''quantum''" "[]"] have
    "filteredEntries (entries ?s) ''quantum'' = filter (\<lambda>e. id_tr e mod 10 = 1) (entries ?s)"
    by blast
  then have 1: "filteredEntries (entries ?s) ''quantum''
      = [\<lparr>id_tr = 1, text_tr = ''The quantum squirrel has appropriated my sustenance cube.''\<rparr>]"
    by (simp only: f)
  have t2: "trim ''QUANTUM s'' \<noteq> []" and t3: "trim ''quantums'' \<noteq> []"
    by (simp_all add: string_eval)
  from w [of "''QUANTUM s''" ?es] t2 have
    "filteredEntries ?es ''QUANTUM s''
       = filter (\<lambda>e. sublist (toLowerCase ''QUANTUM s'') (toLowerCase (text_tr e))) ?es"
    by blast
  then have 2: "filteredEntries ?es ''QUANTUM s'' = ?es"
    by (simp add: string_eval flip: includes_js_sublist)
  from w [of "''quantums''" ?es] t3 have
    "filteredEntries ?es ''quantums''
       = filter (\<lambda>e. sublist (toLowerCase ''quantums'') (toLowerCase (text_tr e))) ?es"
    by blast
  then have 3: "filteredEntries ?es ''quantums'' = []"
    by (simp add: string_eval flip: includes_js_sublist)
  from 1 2 3 show ?thesis by blast
qed


text \<open>
  C6. With the empty search term the filtered view is the entry log itself.
\<close>

theorem filteredEntries_empty_term: "filteredEntries es [] = es"
  by (simp add: filteredEntries_def)

theorem filteredEntries_empty_term_witness:
  "filteredEntries (entries (run [RequestMore, TimerFires] (mounted FALLBACK_TRANSLATIONS))) []
     = entries (run [RequestMore, TimerFires] (mounted FALLBACK_TRANSLATIONS))"
  by (rule filteredEntries_empty_term)


text \<open>
  C7. The ids of the log are to be \<open>0, \<dots>, length (entries s) - 1\<close>, each
  once. The code breaks this when \<open>loadMoreEntries\<close> is called twice before a
  render: from a state in which the \<open>loadMoreEntries\<close> that the callers hold
  passes its guard and nothing is scheduled, the two timer callbacks append the ids
  \<open>currentPage \<times> 10, \<dots>, currentPage \<times> 10 + 9\<close> twice, so the
  ids of the log are not distinct and are not that range. From \<open>mounted\<close> they are
  0 to 9, twice.
\<close>

theorem entry_ids_repeat:
  assumes "\<not> c_loading (callback s)" and "c_hasMore (callback s)"
    and "c_translations (callback s) \<noteq> []" and "timers s = []"
    and "s' = run [RequestMore, RequestMore, TimerFires, TimerFires] s"
  shows "map id_tr (entries s') =
           map id_tr (entries s)
           @ [c_currentPage (callback s) * 10..<c_currentPage (callback s) * 10 + 10]
           @ [c_currentPage (callback s) * 10..<c_currentPage (callback s) * 10 + 10]
         \<and> \<not> distinct (map id_tr (entries s'))
         \<and> map id_tr (entries s') \<noteq> [0..<length (entries s')]"
proof -
  let ?p = "c_currentPage (callback s) * 10"
  have es: "entries s' = entries s @ map (spec_entry (c_translations (callback s))) [?p..<?p + 10]
      @ map (spec_entry (c_translations (callback s))) [?p..<?p + 10]"
    unfolding assms(5) using assms(1-4) by (rule double_call)
  have ids: "map id_tr (entries s') = map id_tr (entries s) @ [?p..<?p + 10] @ [?p..<?p + 10]"
    unfolding es by (simp add: comp_def)
  have "?p \<in> set [?p..<?p + 10]" by simp
  then have nd: "\<not> distinct (map id_tr (entries s'))"
    unfolding ids by auto
  have "distinct [0..<length (entries s')]" by simp
  with nd have "map id_tr (entries s') \<noteq> [0..<length (entries s')]"
    by metis
  with ids nd show ?thesis by blast
qed

theorem entry_ids_repeat_witness:
  "map id_tr (entries (run [RequestMore, RequestMore, TimerFires, TimerFires]
      (mounted [''a'', ''b'', ''c''])))
     = [0, 1, 2, 3, 4, 5, 6, 7, 8, 9, 0, 1, 2, 3, 4, 5, 6, 7, 8, 9]"
proof -
  let ?s = "mounted [''a'', ''b'', ''c'']"
  have ne: "c_translations (callback ?s) \<noteq> []"
    by (simp add: mounted_guard)
  note w = entry_ids_repeat [OF mounted_guard(1) mounted_guard(2) ne mounted_guard(4) refl]
  from w have "map id_tr (entries (run [RequestMore, RequestMore, TimerFires, TimerFires] ?s)) =
      map id_tr (entries ?s)
      @ [c_currentPage (callback ?s) * 10..<c_currentPage (callback ?s) * 10 + 10]
      @ [c_currentPage (callback ?s) * 10..<c_currentPage (callback ?s) * 10 + 10]"
    by (rule conjunct1)
  then show ?thesis
    by (simp add: mounted_guard upt_conv_Cons)
qed


text \<open>
  C8. Two toggles from any state bring \<open>darkMode\<close> back to its value and append two writes
  under the key \<open>groot-dark-mode\<close>: first the negated value, which differs from the
  original, then the original value. (One toggle gives the negated value and the first
  write alone.)
\<close>

theorem toggleDarkMode_twice:
  "darkMode (run [ToggleDarkMode, ToggleDarkMode] s) = darkMode s
   \<and> localStorage_writes (run [ToggleDarkMode, ToggleDarkMode] s) =
       localStorage_writes s @
         [(''groot-dark-mode'', JSON_stringify_bool (\<not> darkMode s)),
          (''groot-dark-mode'', JSON_stringify_bool (darkMode s))]
   \<and> JSON_stringify_bool (\<not> darkMode s) \<noteq> JSON_stringify_bool (darkMode s)
   \<and> darkMode (run [ToggleDarkMode] s) = (\<not> darkMode s)
   \<and> localStorage_writes (run [ToggleDarkMode] s) =
       localStorage_writes s @ [(''groot-dark-mode'', JSON_stringify_bool (\<not> darkMode s))]"
  by (simp add: rerender_def commit_darkMode_def toggleDarkMode_def darkMode_effect_def
      JSON_stringify_bool_def)

theorem toggleDarkMode_twice_witness:
  "darkMode (run [ToggleDarkMode, ToggleDarkMode] (mounted [])) = False
   \<and> localStorage_writes (run [ToggleDarkMode, ToggleDarkMode] (mounted [])) =
       [(''groot-dark-mode'', ''true''), (''groot-dark-mode'', ''false'')]"
proof -
  have d: "darkMode (mounted []) = False" and w: "localStorage_writes (mounted []) = []"
    by (simp_all add: mounted_def)
  have j: "JSON_stringify_bool True = ''true''" "JSON_stringify_bool False = ''false''"
    by (simp_all add: JSON_stringify_bool_def)
  from toggleDarkMode_twice [of "mounted []"] show ?thesis
    by (simp only: d w j simp_thms append_Nil)
qed


text \<open>
  C9. A search term that is not empty and holds only whitespace gives the whole entry log.
  A term with a character that is not whitespace gives the entries whose lowercased text
  contains the lowercased term as it was typed, untrimmed: \<open>zephyrian\<close> with a leading
  space finds nothing in a text that starts with that word (see the witness).
\<close>

theorem filteredEntries_raw_term:
  "(q \<noteq> [] \<and> (\<forall>c \<in> set q. js_whitespace c) \<longrightarrow> filteredEntries es q = es)
   \<and> ((\<exists>c \<in> set q. \<not> js_whitespace c) \<longrightarrow>
        filteredEntries es q =
          filter (\<lambda>e. sublist (toLowerCase q) (toLowerCase (text_tr e))) es)"
  by (auto simp: filteredEntries_def trim_empty_iff includes_js_sublist)

theorem filteredEntries_raw_term_witness:
  "filteredEntries [\<lparr>id_tr = 0, text_tr = ''Zephyrian consciousness''\<rparr>] [CHR 0x20, CHR 0x09]
     = [\<lparr>id_tr = 0, text_tr = ''Zephyrian consciousness''\<rparr>]
   \<and> filteredEntries [\<lparr>id_tr = 0, text_tr = ''Zephyrian consciousness''\<rparr>] ''zephyrian''
     = [\<lparr>id_tr = 0, text_tr = ''Zephyrian consciousness''\<rparr>]
   \<and> filteredEntries [\<lparr>id_tr = 0, text_tr = ''Zephyrian consciousness''\<rparr>] '' zephyrian''
     = []
   \<and> filteredEntries [\<lparr>id_tr = 0, text_tr = ''Zephyrian consciousness''\<rparr>] ''zephyrian ''
     = [\<lparr>id_tr = 0, text_tr = ''Zephyrian consciousness''\<rparr>]
   \<and> filteredEntries [\<lparr>id_tr = 0, text_tr = ''Zephyrian consciousness''\<rparr>] ''consciousness ''
     = []"
proof -
  let ?es = "[\<lparr>id_tr = 0, text_tr = ''Zephyrian consciousness''\<rparr>]"
  have 1: "filteredEntries ?es [CHR 0x20, CHR 0x09] = ?es"
    using filteredEntries_raw_term [of "[CHR 0x20, CHR 0x09]" ?es]
    by (simp add: js_whitespace_def)
  have 2: "filteredEntries ?es ''zephyrian'' = ?es"
    using filteredEntries_raw_term [of "''zephyrian''" ?es]
    by (simp add: string_eval flip: includes_js_sublist)
  have 3: "filteredEntries ?es '' zephyrian'' = []"
    using filteredEntries_raw_term [of "'' zephyrian''" ?es]
    by (simp add: string_eval flip: includes_js_sublist)
  have 4: "filteredEntries ?es ''zephyrian '' = ?es"
    using filteredEntries_raw_term [of "''zephyrian ''" ?es]
    by (simp add: string_eval flip: includes_js_sublist)
  have 5: "filteredEntries ?es ''consciousness '' = []"
    using filteredEntries_raw_term [of "''consciousness ''" ?es]
    by (simp add: string_eval flip: includes_js_sublist)
  from 1 2 3 4 5 show ?thesis by blast
qed


text \<open>
  C10. The start index of a batch is to be the length of the log, so that new ids do not meet
  old ones. The code breaks this when \<open>loadMoreEntries\<close> is called twice before a
  render: from a state in which the \<open>loadMoreEntries\<close> that the callers hold
  passes its guard and nothing is scheduled, with a closure whose start index is the length of
  the log, after the first timer callback the second is still scheduled with the same start
  index, ten short of the log; the ids it will assign are all in the log already. Running it
  brings the page counter to two more and the log to twenty more than at the calls.
\<close>

theorem page_counter_stale:
  assumes "\<not> c_loading (callback s)" and "c_hasMore (callback s)"
    and "c_translations (callback s) \<noteq> []" and "timers s = []"
    and "c_currentPage (callback s) * 10 = length (entries s)"
    and "s' = run [RequestMore, RequestMore, TimerFires] s"
  shows "timers s' = [callback s]
         \<and> length (entries s') = length (entries s) + 10
         \<and> c_currentPage (callback s) * entriesPerPage \<noteq> length (entries s')
         \<and> map id_tr (batch_loop (c_currentPage (callback s) * entriesPerPage)
               (c_translations (callback s)) 0 [])
             = [length (entries s)..<length (entries s) + 10]
         \<and> set [length (entries s)..<length (entries s) + 10] \<subseteq> set (map id_tr (entries s'))
         \<and> currentPage (step TimerFires s') = currentPage s + 2
         \<and> length (entries (step TimerFires s')) = length (entries s) + 20"
proof -
  let ?p = "c_currentPage (callback s) * 10"
  let ?T = "c_translations (callback s)"
  have tm: "timers s' = [callback s]"
    unfolding assms(6) using assms(1-4) by (rule double_call)
  have es: "entries s' = entries s @ map (spec_entry ?T) [?p..<?p + 10]"
    unfolding assms(6) using assms(1-4) by (rule double_call)
  have len: "length (entries s') = length (entries s) + 10"
    unfolding es by simp
  have start: "c_currentPage (callback s) * entriesPerPage \<noteq> length (entries s')"
    unfolding len using assms(5) by (simp add: entriesPerPage_def)
  have batch: "map id_tr (batch_loop (c_currentPage (callback s) * entriesPerPage) ?T 0 [])
      = [length (entries s)..<length (entries s) + 10]"
    using assms(5) by (simp add: batch_loop_eq entriesPerPage_def comp_def)
  have coll: "set [length (entries s)..<length (entries s) + 10] \<subseteq> set (map id_tr (entries s'))"
    unfolding es using assms(5) by (simp add: comp_def)
  have s4: "step TimerFires s' = run [RequestMore, RequestMore, TimerFires, TimerFires] s"
    unfolding assms(6) by simp
  have page: "currentPage (step TimerFires s') = currentPage s + 2"
    unfolding s4 using assms(1-4) by (rule double_call)
  have len4: "length (entries (step TimerFires s')) = length (entries s) + 20"
    unfolding s4 double_call(6) [OF assms(1-4)] by simp
  from tm len start batch coll page len4 show ?thesis by blast
qed

theorem page_counter_stale_witness:
  "timers (run [RequestMore, RequestMore, TimerFires] (mounted [''a'', ''b'', ''c'']))
     = [callback (mounted [''a'', ''b'', ''c''])]
   \<and> c_currentPage (callback (mounted [''a'', ''b'', ''c''])) * entriesPerPage = 0
   \<and> length (entries (run [RequestMore, RequestMore, TimerFires] (mounted [''a'', ''b'', ''c''])))
       = 10
   \<and> set [0..<10]
       \<subseteq> set (map id_tr (entries (run [RequestMore, RequestMore, TimerFires]
               (mounted [''a'', ''b'', ''c'']))))"
proof -
  let ?s = "mounted [''a'', ''b'', ''c'']"
  have ne: "c_translations (callback ?s) \<noteq> []"
    by (simp add: mounted_guard)
  have st: "c_currentPage (callback ?s) * 10 = length (entries ?s)"
    by (simp add: mounted_guard)
  note w = page_counter_stale [OF mounted_guard(1) mounted_guard(2) ne mounted_guard(4) st refl]
  from w have 1: "timers (run [RequestMore, RequestMore, TimerFires] ?s) = [callback ?s]"
    by blast
  have 2: "c_currentPage (callback ?s) * entriesPerPage = 0"
    by (simp add: mounted_guard)
  from w have "length (entries (run [RequestMore, RequestMore, TimerFires] ?s))
      = length (entries ?s) + 10"
    by blast
  then have 3: "length (entries (run [RequestMore, RequestMore, TimerFires] ?s)) = 10"
    by (simp only: mounted_guard list.size add_0)
  from w have "set [length (entries ?s)..<length (entries ?s) + 10]
      \<subseteq> set (map id_tr (entries (run [RequestMore, RequestMore, TimerFires] ?s)))"
    by blast
  then have 4: "set [0..<10]
      \<subseteq> set (map id_tr (entries (run [RequestMore, RequestMore, TimerFires] ?s)))"
    by (simp only: mounted_guard list.size add_0)
  from 1 2 3 4 show ?thesis by blast
qed

end
